theory Spec2Isabelle
  imports Main "HOL-Library.Word"
begin

section \<open>JavaScript values used by the scraper\<close>

text \<open>
  A JavaScript string is a sequence of UTF-16 code units. String literals of the source
  are written with \<open>js\<close>, which maps each character of an Isabelle literal to its code
  unit.
\<close>

type_synonym jsstring = "16 word list"

definition js :: "string \<Rightarrow> jsstring" where
  "js s = map (\<lambda>c. of_nat (of_char c)) s"

text \<open>
  The class \<^verbatim>\<open>\s\<close> of a JavaScript regular expression, which is also what
  \<^verbatim>\<open>String.prototype.trim\<close> strips: TAB, LF, VT, FF, CR, SPACE, NBSP, U+1680,
  U+2000 to U+200A, U+2028, U+2029, U+202F, U+205F, U+3000 and U+FEFF.
\<close>

definition is_space :: "16 word \<Rightarrow> bool" where
  "is_space c = (c = 0x09 \<or> c = 0x0A \<or> c = 0x0B \<or> c = 0x0C \<or> c = 0x0D \<or> c = 0x20
     \<or> c = 0xA0 \<or> c = 0x1680 \<or> (0x2000 \<le> c \<and> c \<le> 0x200A) \<or> c = 0x2028 \<or> c = 0x2029
     \<or> c = 0x202F \<or> c = 0x205F \<or> c = 0x3000 \<or> c = 0xFEFF)"

text \<open>\<^verbatim>\<open>s.trim()\<close>\<close>

definition trim :: "jsstring \<Rightarrow> jsstring" where
  "trim s = rev (dropWhile is_space (rev (dropWhile is_space s)))"

text \<open>\<^verbatim>\<open>s.replace(/\s+/g, '')\<close>: every maximal run of whitespace is deleted.\<close>

definition remove_whitespace :: "jsstring \<Rightarrow> jsstring" where
  "remove_whitespace s = filter (\<lambda>c. \<not> is_space c) s"

text \<open>The decimal rendering of a non-negative index inside a template literal.\<close>

fun decimal :: "nat \<Rightarrow> jsstring" where
  "decimal n = (if n < 10 then [of_nat (48 + n)]
                else decimal (n div 10) @ [of_nat (48 + n mod 10)])"

declare decimal.simps [simp del]

text \<open>\<^verbatim>\<open>xs.join(sep)\<close>\<close>

fun join :: "jsstring \<Rightarrow> jsstring list \<Rightarrow> jsstring" where
  "join sep [] = []"
| "join sep [x] = x"
| "join sep (x # y # ys) = x @ sep @ join sep (y # ys)"

text \<open>\<^verbatim>\<open>v || null\<close> on a string or null: the empty string is falsy.\<close>

fun or_null :: "jsstring option \<Rightarrow> jsstring option" where
  "or_null None = None"
| "or_null (Some s) = (if s = [] then None else Some s)"

text \<open>
  A JavaScript \<^verbatim>\<open>Set\<close> of strings keeps its members in insertion order;
  \<^verbatim>\<open>Array.from(set)\<close> lists them in that order. The set is modelled by that list.
\<close>

type_synonym jsset = "jsstring list"

definition Set_has :: "jsset \<Rightarrow> jsstring \<Rightarrow> bool" where
  "Set_has s x = (x \<in> set s)"

definition Set_add :: "jsset \<Rightarrow> jsstring \<Rightarrow> jsset" where
  "Set_add s x = (if Set_has s x then s else s @ [x])"

definition Set_new :: "jsstring list \<Rightarrow> jsset" where
  "Set_new xs = foldl Set_add [] xs"

definition Array_from :: "jsset \<Rightarrow> jsstring list" where
  "Array_from s = s"

text \<open>\<^verbatim>\<open>xs.slice(-k)\<close>: the last \<open>k\<close> entries, all of them when there are fewer.\<close>

definition slice_last :: "nat \<Rightarrow> 'a list \<Rightarrow> 'a list" where
  "slice_last k xs = drop (length xs - k) xs"

text \<open>The outcome of awaiting a page-driver call: the promise rejects or resolves.\<close>

datatype 'a evaluated = Rejects | Resolves 'a

section \<open>The page: profile cards as the selectors see them\<close>

text \<open>
  One profile card of \<^verbatim>\<open>#directory-results > div > div\<close>, reduced to what the
  selectors of the source read from it: the \<^verbatim>\<open>textContent\<close> of the name span, of the
  third, fourth child and of the divs inside the fifth child, and the \<^verbatim>\<open>href\<close> of the
  LinkedIn and the website link. \<open>None\<close> is a selector that matches nothing.
\<close>

record element =
  nameEl :: "jsstring option"
  occupationEl :: "jsstring option"
  locationEl :: "jsstring option"
  uniContainerEl :: "jsstring list option"
  linkedInEl :: "jsstring option"
  websiteEl :: "jsstring option"

text \<open>One scraped row; \<open>None\<close> is \<^verbatim>\<open>null\<close>.\<close>

record profile =
  name :: "jsstring option"
  linkedIn_url :: "jsstring option"
  website_url :: "jsstring option"
  occupation :: "jsstring option"
  location :: "jsstring option"
  uni_name :: "jsstring option"

subsection \<open>The fingerprint (index.js, lines 225 to 239)\<close>

text \<open>\<^verbatim>\<open>el ? el.textContent.trim() : ''\<close>\<close>

fun text_or_empty :: "jsstring option \<Rightarrow> jsstring" where
  "text_or_empty None = []"
| "text_or_empty (Some t) = trim t"

text \<open>\<^verbatim>\<open>linkedInEl ? linkedInEl.href : ''\<close>\<close>

fun href_or_empty :: "jsstring option \<Rightarrow> jsstring" where
  "href_or_empty None = []"
| "href_or_empty (Some h) = h"

definition uniqueId :: "element \<Rightarrow> jsstring" where
  "uniqueId el =
     remove_whitespace (text_or_empty (nameEl el) @ js ''|'' @ text_or_empty (occupationEl el)
        @ js ''|'' @ href_or_empty (linkedInEl el))"

text \<open>The probe of one iteration: every visible card with its index and fingerprint.\<close>

definition currentProfilesWithIds :: "element list \<Rightarrow> (nat \<times> jsstring) list" where
  "currentProfilesWithIds elements = map (\<lambda>(index, el). (index, uniqueId el)) (enumerate 0 elements)"

subsection \<open>Extraction of one card (index.js, lines 328 to 385)\<close>

text \<open>\<^verbatim>\<open>getTextContent\<close> and \<^verbatim>\<open>getHref\<close>\<close>

definition getTextContent :: "jsstring option \<Rightarrow> jsstring option" where
  "getTextContent el = map_option trim el"

definition getHref :: "jsstring option \<Rightarrow> jsstring option" where
  "getHref el = el"

definition uni_name_of :: "jsstring list option \<Rightarrow> jsstring option" where
  "uni_name_of container =
     (case container of
        None \<Rightarrow> None
      | Some uniDivs \<Rightarrow>
          if length uniDivs > 0 then Some (join (js ''; '') (map trim uniDivs)) else None)"

text \<open>
  The function evaluated in the page for index \<open>idx\<close>: \<^verbatim>\<open>null\<close> when
  \<^verbatim>\<open>querySelectorAll(selector)[idx]\<close> is undefined.
\<close>

definition extract_in_page :: "element list \<Rightarrow> nat \<Rightarrow> profile option" where
  "extract_in_page elements idx =
     (if idx < length elements then
        (let profileEl = elements ! idx in
         Some \<lparr> name = or_null (getTextContent (nameEl profileEl)),
                linkedIn_url = or_null (getHref (linkedInEl profileEl)),
                website_url = or_null (getHref (websiteEl profileEl)),
                occupation = or_null (getTextContent (occupationEl profileEl)),
                location = or_null (getTextContent (locationEl profileEl)),
                uni_name = or_null (uni_name_of (uniContainerEl profileEl)) \<rparr>)
      else None)"

subsection \<open>extractProfileBatch (index.js, lines 320 to 419)\<close>

definition error_profile :: "nat \<Rightarrow> profile" where
  "error_profile index =
     \<lparr> name = Some (js ''Error_Profile_'' @ decimal index),
       linkedIn_url = None, website_url = None, occupation = None, location = None,
       uni_name = None \<rparr>"

text \<open>
  The page driver of one batch: \<open>evaluate i index\<close> is the outcome of the \<open>i\<close>-th
  \<^verbatim>\<open>page.evaluate\<close> call of the batch, made for card \<open>index\<close>. It rejects (a driver
  exception, caught by the \<^verbatim>\<open>catch\<close> of the loop body), or resolves to \<^verbatim>\<open>null\<close> or
  to the extracted data. The \<^verbatim>\<open>for\<close> loop pushes one entry in each of the three cases.
\<close>

fun extractProfileBatch_loop ::
  "(nat \<Rightarrow> nat \<Rightarrow> profile option evaluated) \<Rightarrow> nat \<Rightarrow> nat list \<Rightarrow> profile list \<Rightarrow> profile list"
where
  "extractProfileBatch_loop evaluate i [] batchData = batchData"
| "extractProfileBatch_loop evaluate i (index # rest) batchData =
     (case evaluate i index of
        Resolves (Some data) \<Rightarrow> extractProfileBatch_loop evaluate (Suc i) rest (batchData @ [data])
      | Resolves None \<Rightarrow>
          extractProfileBatch_loop evaluate (Suc i) rest (batchData @ [error_profile index])
      | Rejects \<Rightarrow>
          extractProfileBatch_loop evaluate (Suc i) rest (batchData @ [error_profile index]))"

definition extractProfileBatch ::
  "nat list \<Rightarrow> (nat \<Rightarrow> nat \<Rightarrow> profile option evaluated) \<Rightarrow> profile list"
where
  "extractProfileBatch profileIndices evaluate =
     extractProfileBatch_loop evaluate 0 profileIndices []"

section \<open>Files: the CSV sink and the checkpoint\<close>

text \<open>
  The content of \<^verbatim>\<open>scraper_checkpoint.json\<close>. The file itself is a
  \<open>checkpoint option\<close>: \<open>None\<close> when it is absent or does not parse.
\<close>

record checkpoint =
  cp_lastProfileIndex :: int
  cp_csvFilename :: "jsstring option"
  cp_processedProfileIds :: "jsstring list"

text \<open>
  \<^verbatim>\<open>updateCheckpoint\<close> (lines 441 to 455). \<open>writeOk\<close> says whether
  \<^verbatim>\<open>fs.writeFileSync\<close> succeeds; a failure is caught and logged, and the file stays as
  it was.
\<close>

definition updateCheckpoint ::
  "int \<Rightarrow> jsstring option \<Rightarrow> jsstring list \<Rightarrow> bool \<Rightarrow> checkpoint option \<Rightarrow> checkpoint option"
where
  "updateCheckpoint li csvFilename ids writeOk file =
     (if writeOk then
        Some \<lparr> cp_lastProfileIndex = li, cp_csvFilename = csvFilename,
               cp_processedProfileIds = (if length ids > 1000 then slice_last 1000 ids else ids) \<rparr>
      else file)"

text \<open>
  The rows \<^verbatim>\<open>parser.parse(data)\<close> renders (line 172). The parser of json2csv is
  built with the six fields and leaves \<^verbatim>\<open>includeEmptyRows\<close> at its default, so it
  renders one row per record and none for a record whose six fields are all null.
\<close>

definition empty_row :: "profile \<Rightarrow> bool" where
  "empty_row r =
     (name r = None \<and> linkedIn_url r = None \<and> website_url r = None \<and> occupation r = None
      \<and> location r = None \<and> uni_name r = None)"

definition Parser_parse :: "profile list \<Rightarrow> profile list" where
  "Parser_parse data = filter (\<lambda>r. \<not> empty_row r) data"

text \<open>
  \<^verbatim>\<open>appendToCsv\<close> (lines 166 to 179) on the rows of the CSV file. \<open>appendOk\<close> says
  whether \<^verbatim>\<open>fs.appendFileSync\<close> succeeds; a failure is caught and logged, nothing is
  returned to the caller in either case.
\<close>

definition appendToCsv :: "profile list \<Rightarrow> profile list \<Rightarrow> bool \<Rightarrow> profile list" where
  "appendToCsv rows data appendOk =
     (if length data = 0 then rows else if appendOk then rows @ Parser_parse data else rows)"

text \<open>\<^verbatim>\<open>loadCheckpoint\<close> (lines 424 to 436)\<close>

definition default_checkpoint :: checkpoint where
  "default_checkpoint =
     \<lparr> cp_lastProfileIndex = - 1, cp_csvFilename = None, cp_processedProfileIds = [] \<rparr>"

definition loadCheckpoint :: "checkpoint option \<Rightarrow> checkpoint" where
  "loadCheckpoint file = (case file of None \<Rightarrow> default_checkpoint | Some cp \<Rightarrow> cp)"

section \<open>The collection loop (scrollScrapeAndSave, lines 185 to 315)\<close>

text \<open>Lines 243 to 246: the profiles selected for extraction.\<close>

definition newProfiles :: "int \<Rightarrow> jsset \<Rightarrow> element list \<Rightarrow> (nat \<times> jsstring) list" where
  "newProfiles li ids elements =
     filter (\<lambda>(index, uid). int index > li \<and> \<not> Set_has ids uid) (currentProfilesWithIds elements)"

text \<open>
  Lines 255 to 259: entry \<open>i\<close> of the batch gets the fingerprint of entry \<open>i\<close> of
  \<open>newProfiles\<close>, when there is one.
\<close>

definition tag_batch ::
  "profile list \<Rightarrow> (nat \<times> jsstring) list \<Rightarrow> (profile \<times> jsstring option) list"
where
  "tag_batch batchData new =
     map (\<lambda>i. (batchData ! i, if i < length new then Some (snd (new ! i)) else None))
       [0..<length batchData]"

text \<open>Lines 262 to 264: keep the entries with a non-empty fingerprint that is not in the set.\<close>

definition uniqueBatchData ::
  "jsset \<Rightarrow> (profile \<times> jsstring option) list \<Rightarrow> (profile \<times> jsstring) list"
where
  "uniqueBatchData ids batch =
     List.map_filter
       (\<lambda>(p, u). case u of
                    None \<Rightarrow> None
                  | Some uid \<Rightarrow> if uid \<noteq> [] \<and> \<not> Set_has ids uid then Some (p, uid) else None)
       batch"

text \<open>Lines 303 to 308: the stall counter.\<close>

definition next_noChangeCount :: "nat \<Rightarrow> int \<Rightarrow> int \<Rightarrow> nat \<Rightarrow> nat" where
  "next_noChangeCount n previousHeight newHeight newCount =
     (if newHeight = previousHeight \<and> newCount = 0 then n + 1 else 0)"

definition maxNoChangeCount :: nat where
  "maxNoChangeCount = 5"

text \<open>
  What one iteration observes of the outside world: the cards the probe sees, the
  outcomes of the extraction calls, the page height before and after the scroll, and
  whether the two file writes succeed. A rejected probe or height query throws out of
  the loop.
\<close>

record page =
  probed :: "element list evaluated"
  extracted :: "nat \<Rightarrow> nat \<Rightarrow> profile option evaluated"
  scrolled :: "(int \<times> int) evaluated"
  append_ok :: bool
  write_ok :: bool

text \<open>
  The variables of the loop, with the two files it writes: the rows of the CSV file
  named \<open>csvFilename\<close> and the checkpoint file.
\<close>

record scraper =
  lastProfileIndex :: int
  processedProfileIds :: jsset
  noChangeCount :: nat
  scrollCount :: nat
  csvRows :: "profile list"
  checkpointFile :: "checkpoint option"

text \<open>Lines 252 to 264: the records an iteration hands to \<^verbatim>\<open>appendToCsv\<close>, with their tags.\<close>

definition batch_to_commit ::
  "scraper \<Rightarrow> page \<Rightarrow> (nat \<times> jsstring) list \<Rightarrow> (profile \<times> jsstring) list"
where
  "batch_to_commit st pg new =
     uniqueBatchData (processedProfileIds st)
       (tag_batch (extractProfileBatch (map fst new) (extracted pg)) new)"

text \<open>Lines 251 to 287.\<close>

definition commit :: "jsstring \<Rightarrow> scraper \<Rightarrow> page \<Rightarrow> (nat \<times> jsstring) list \<Rightarrow> scraper" where
  "commit csvFilename st pg new =
     (if length new > 0 then
        (let unique = batch_to_commit st pg new in
         if length unique > 0 then
           (let rows = appendToCsv (csvRows st) (map fst unique) (append_ok pg);
                ids = foldl Set_add (processedProfileIds st) (map snd unique);
                li = foldl max (lastProfileIndex st) (map (\<lambda>p. int (fst p)) new)
            in st \<lparr> csvRows := rows, processedProfileIds := ids, lastProfileIndex := li,
                     checkpointFile :=
                       updateCheckpoint li (Some csvFilename) (Array_from ids) (write_ok pg)
                         (checkpointFile st) \<rparr>)
         else st)
      else st)"

text \<open>
  One iteration of the \<^verbatim>\<open>while\<close> loop. \<open>Inl\<close> is an exception that leaves the loop,
  with the variables and files as they are at that moment.
\<close>

definition loop_body :: "jsstring \<Rightarrow> scraper \<Rightarrow> page \<Rightarrow> scraper + scraper" where
  "loop_body csvFilename st pg =
     (case probed pg of
        Rejects \<Rightarrow> Inl st
      | Resolves elements \<Rightarrow>
          (let new = newProfiles (lastProfileIndex st) (processedProfileIds st) elements;
               st1 = commit csvFilename st pg new
           in case scrolled pg of
                Rejects \<Rightarrow> Inl st1
              | Resolves (previousHeight, newHeight) \<Rightarrow>
                  Inr (st1 \<lparr> scrollCount := scrollCount st1 + 1,
                            noChangeCount :=
                              next_noChangeCount (noChangeCount st1) previousHeight newHeight
                                (length new) \<rparr>)))"

text \<open>
  The loop runs as long as the page keeps changing, so it is run on a list of
  observations, one per iteration: \<open>Running\<close> is a loop that has used them all and still
  goes on, \<open>Done\<close> a loop that has left through its condition, \<open>Thrown\<close> one left by an
  exception.
\<close>

datatype run = Running scraper | Done scraper | Thrown scraper

fun state_of :: "run \<Rightarrow> scraper" where
  "state_of (Running st) = st"
| "state_of (Done st) = st"
| "state_of (Thrown st) = st"

fun while_loop :: "jsstring \<Rightarrow> scraper \<Rightarrow> page list \<Rightarrow> run" where
  "while_loop csvFilename st [] = (if noChangeCount st < maxNoChangeCount then Running st else Done st)"
| "while_loop csvFilename st (pg # pages) =
     (if noChangeCount st < maxNoChangeCount then
        (case loop_body csvFilename st pg of
           Inl st' \<Rightarrow> Thrown st'
         | Inr st' \<Rightarrow> while_loop csvFilename st' pages)
      else Done st)"

text \<open>
  \<^verbatim>\<open>scrollScrapeAndSave\<close>. The catch-up scrolling of lines 198 to 218 only drives the
  page and assigns none of the variables below; an exception there leaves the function
  as a rejected first probe does.
\<close>

definition initial :: "int \<Rightarrow> jsset \<Rightarrow> profile list \<Rightarrow> checkpoint option \<Rightarrow> scraper" where
  "initial li ids rows file =
     \<lparr> lastProfileIndex = li, processedProfileIds = ids, noChangeCount = 0, scrollCount = 0,
       csvRows = rows, checkpointFile = file \<rparr>"

definition scrollScrapeAndSave ::
  "jsstring \<Rightarrow> int \<Rightarrow> jsset \<Rightarrow> profile list \<Rightarrow> checkpoint option \<Rightarrow> page list \<Rightarrow> run"
where
  "scrollScrapeAndSave csvFilename li ids rows file pages =
     while_loop csvFilename (initial li ids rows file) pages"

text \<open>
  The iterations a run executes, each with the variables it starts from, and whether an
  iteration is a stall: the height is unchanged and no new profile was found.
\<close>

fun executed :: "jsstring \<Rightarrow> scraper \<Rightarrow> page list \<Rightarrow> (scraper \<times> page) list" where
  "executed csvFilename st [] = []"
| "executed csvFilename st (pg # pages) =
     (if noChangeCount st < maxNoChangeCount then
        (st, pg) # (case loop_body csvFilename st pg of
                      Inl st' \<Rightarrow> []
                    | Inr st' \<Rightarrow> executed csvFilename st' pages)
      else [])"

fun delta :: "scraper \<times> page \<Rightarrow> (nat \<times> jsstring) list" where
  "delta (st, pg) =
     (case probed pg of
        Rejects \<Rightarrow> []
      | Resolves elements \<Rightarrow> newProfiles (lastProfileIndex st) (processedProfileIds st) elements)"

fun stalled :: "scraper \<times> page \<Rightarrow> bool" where
  "stalled (st, pg) =
     (case scrolled pg of
        Rejects \<Rightarrow> False
      | Resolves (previousHeight, newHeight) \<Rightarrow>
          newHeight = previousHeight \<and> length (delta (st, pg)) = 0)"

text \<open>The records an executed iteration hands to the sink.\<close>

fun handed_to_sink :: "scraper \<times> page \<Rightarrow> (profile \<times> jsstring) list" where
  "handed_to_sink (st, pg) = batch_to_commit st pg (delta (st, pg))"

section \<open>Start of a run and the interrupt handler (scrapeSearchFunder)\<close>

text \<open>Lines 21 to 24: the variables of a run, read from the loaded checkpoint.\<close>

definition resume_lastProfileIndex :: "checkpoint \<Rightarrow> int" where
  "resume_lastProfileIndex cp = (if cp_lastProfileIndex cp = 0 then - 1 else cp_lastProfileIndex cp)"

definition resume_csvFilename :: "checkpoint \<Rightarrow> jsstring option" where
  "resume_csvFilename cp = or_null (cp_csvFilename cp)"

definition resume_processedProfileIds :: "checkpoint \<Rightarrow> jsset" where
  "resume_processedProfileIds cp = Set_new (cp_processedProfileIds cp)"

text \<open>
  \<^verbatim>\<open>setupGracefulShutdown\<close> (lines 460 to 477). The handler is a closure over the
  parameters of \<^verbatim>\<open>setupGracefulShutdown\<close>: the number and the string are the values
  passed at registration, the \<^verbatim>\<open>Set\<close> is the object the loop adds to, so the handler
  reads its members as they are when the signal arrives.
\<close>

record handler =
  h_lastProfileIndex :: int
  h_csvFilename :: "jsstring option"
  shuttingDown :: bool

definition setupGracefulShutdown :: "int \<Rightarrow> jsstring option \<Rightarrow> handler" where
  "setupGracefulShutdown li csvFilename =
     \<lparr> h_lastProfileIndex = li, h_csvFilename = csvFilename, shuttingDown = False \<rparr>"

text \<open>
  One SIGINT: the handler, the members of the shared set at that moment, whether the
  write succeeds, and the checkpoint file; the result says whether the process exits.
\<close>

definition on_SIGINT ::
  "handler \<Rightarrow> jsset \<Rightarrow> bool \<Rightarrow> checkpoint option \<Rightarrow> handler \<times> checkpoint option \<times> bool"
where
  "on_SIGINT h ids writeOk file =
     (if shuttingDown h then (h, file, False)
      else (h \<lparr> shuttingDown := True \<rparr>,
            updateCheckpoint (h_lastProfileIndex h) (h_csvFilename h) (Array_from ids) writeOk file,
            True))"

text \<open>
  Lines 21 to 38: the variables read from the checkpoint file, and the handler registered
  with them. \<^verbatim>\<open>csvFilename\<close> is assigned again later (line 115) when it is null, and
  the index advances only inside \<^verbatim>\<open>scrollScrapeAndSave\<close>.
\<close>

definition scrapeSearchFunder_start ::
  "checkpoint option \<Rightarrow> int \<times> jsstring option \<times> jsset \<times> handler"
where
  "scrapeSearchFunder_start file =
     (let checkpoint = loadCheckpoint file;
          li = resume_lastProfileIndex checkpoint;
          csvFilename = resume_csvFilename checkpoint;
          ids = resume_processedProfileIds checkpoint
      in (li, csvFilename, ids, setupGracefulShutdown li csvFilename))"

section \<open>Notions used in the statements\<close>

text \<open>The entry \<^verbatim>\<open>extractProfileBatch\<close> pushes for one outcome of the driver.\<close>

definition entry_for :: "profile option evaluated \<Rightarrow> nat \<Rightarrow> profile" where
  "entry_for r index =
     (case r of
        Resolves (Some data) \<Rightarrow> data
      | Resolves None \<Rightarrow> error_profile index
      | Rejects \<Rightarrow> error_profile index)"

text \<open>
  A driver over a fixed list of cards: call \<open>i\<close> throws when \<open>throws i\<close>, and otherwise
  runs the in-page function.
\<close>

definition page_driver ::
  "element list \<Rightarrow> (nat \<Rightarrow> bool) \<Rightarrow> nat \<Rightarrow> nat \<Rightarrow> profile option evaluated"
where
  "page_driver elements throws i idx =
     (if throws i then Rejects else Resolves (extract_in_page elements idx))"

text \<open>
  The delta set in the words of the specification (section 4.4, step 2): index greater
  than \<open>lastIndex\<close> OR fingerprint absent from the processed set. It is compared with
  \<open>newProfiles\<close>, the selection of the source.
\<close>

definition delta_as_specified :: "int \<Rightarrow> jsset \<Rightarrow> element list \<Rightarrow> (nat \<times> jsstring) list" where
  "delta_as_specified li ids elements =
     filter (\<lambda>(index, uid). int index > li \<or> \<not> Set_has ids uid) (currentProfilesWithIds elements)"

text \<open>The text of a field, empty when the field is missing.\<close>

fun segment :: "jsstring option \<Rightarrow> jsstring" where
  "segment None = []"
| "segment (Some s) = s"



text \<open>The iterations of a call of \<^verbatim>\<open>scrollScrapeAndSave\<close>.\<close>

definition iterations ::
  "jsstring \<Rightarrow> int \<Rightarrow> jsset \<Rightarrow> profile list \<Rightarrow> checkpoint option \<Rightarrow> page list
     \<Rightarrow> (scraper \<times> page) list"
where
  "iterations csvFilename li ids rows file pages =
     executed csvFilename (initial li ids rows file) pages"

text \<open>The number of stalls at the end of a list of iterations, and the counter replayed on it.\<close>

definition stall_run :: "(scraper \<times> page) list \<Rightarrow> nat" where
  "stall_run tr = length (takeWhile stalled (rev tr))"

definition count_after :: "nat \<Rightarrow> (scraper \<times> page) list \<Rightarrow> nat" where
  "count_after n tr = foldl (\<lambda>n x. if stalled x then n + 1 else 0) n tr"


text \<open>The variables and files after an iteration, however it ends.\<close>

fun outcome_state :: "scraper + scraper \<Rightarrow> scraper" where
  "outcome_state (Inl st) = st"
| "outcome_state (Inr st) = st"

definition grown :: "scraper \<Rightarrow> scraper \<Rightarrow> bool" where
  "grown st s =
     (lastProfileIndex st \<le> lastProfileIndex s
      \<and> (\<exists>ys. processedProfileIds s = processedProfileIds st @ ys))"

section \<open>Example pages\<close>

definition card :: "string \<Rightarrow> string \<Rightarrow> element" where
  "card n occ =
     \<lparr> nameEl = Some (js n), occupationEl = Some (js occ), locationEl = None,
       uniContainerEl = None, linkedInEl = None, websiteEl = None \<rparr>"

definition ann :: element where
  "ann = card ''Ann'' ''CEO''"

definition bob :: element where
  "bob = card ''Bob Roe'' ''CFO''"

definition row :: "string \<Rightarrow> string \<Rightarrow> profile" where
  "row n occ =
     \<lparr> name = Some (js n), linkedIn_url = None, website_url = None, occupation = Some (js occ),
       location = None, uni_name = None \<rparr>"

text \<open>A page showing \<open>elements\<close>, with its height before and after the scroll; no call fails.\<close>

definition seen :: "element list \<Rightarrow> int \<Rightarrow> int \<Rightarrow> page" where
  "seen elements h0 h1 =
     \<lparr> probed = Resolves elements, extracted = page_driver elements (\<lambda>i. False),
       scrolled = Resolves (h0, h1), append_ok = True, write_ok = True \<rparr>"


text \<open>1200 distinct strings: the empty string, \<^verbatim>\<open>a\<close>, \<^verbatim>\<open>aa\<close>, and so on.\<close>

definition many :: "nat \<Rightarrow> nat \<Rightarrow> jsstring list" where
  "many i j = map (\<lambda>n. replicate n 0x61) [i..<j]"

text \<open>A run that has processed 1200 profiles, Ann's first.\<close>

definition long_run :: scraper where
  "long_run =
     \<lparr> lastProfileIndex = - 1, processedProfileIds = js ''Ann|CEO|'' # many 1 1200,
       noChangeCount = 0, scrollCount = 0, csvRows = [], checkpointFile = None \<rparr>"


section \<open>Auxiliary facts\<close>

subsection \<open>Sets and strings\<close>

lemma Set_add_cases: "Set_add s x = s \<or> Set_add s x = s @ [x]"
  by (simp add: Set_add_def)



lemma foldl_Set_add_extends: "\<exists>ys. foldl Set_add s xs = s @ ys"
proof (induction xs arbitrary: s)
  case Nil
  then show ?case by simp
next
  case (Cons x xs)
  from Cons.IH [of "Set_add s x"] obtain ys where ys: "foldl Set_add (Set_add s x) xs = Set_add s x @ ys"
    by blast
  from Set_add_cases [of s x] show ?case
  proof
    assume "Set_add s x = s"
    with ys show ?thesis by simp
  next
    assume "Set_add s x = s @ [x]"
    with ys show ?thesis by simp
  qed
qed

lemma Set_add_fresh: "x \<notin> set s \<Longrightarrow> Set_add s x = s @ [x]"
  by (simp add: Set_add_def Set_has_def)

lemma foldl_Set_add_distinct: "distinct (s @ xs) \<Longrightarrow> foldl Set_add s xs = s @ xs"
proof (induction xs arbitrary: s)
  case Nil
  then show ?case by simp
next
  case (Cons x xs)
  from Cons.prems have fresh: "x \<notin> set s" and d: "distinct ((s @ [x]) @ xs)" by auto
  from Cons.IH [OF d] fresh show ?case by (simp add: Set_add_fresh)
qed

lemma Set_new_distinct: "distinct xs \<Longrightarrow> Set_new xs = xs"
  using foldl_Set_add_distinct [of "[]" xs] by (simp add: Set_new_def)

lemma loop_step:
  "extractProfileBatch_loop ev i (index # rest) acc =
     extractProfileBatch_loop ev (Suc i) rest (acc @ [entry_for (ev i index) index])"
  by (simp add: entry_for_def split: evaluated.splits option.splits)

lemma loop_length:
  "length (extractProfileBatch_loop ev i idxs acc) = length acc + length idxs"
proof (induction idxs arbitrary: i acc)
  case Nil
  then show ?case by simp
next
  case (Cons a idxs)
  show ?case unfolding loop_step by (simp add: Cons.IH)
qed

lemma loop_nth_old:
  "k < length acc \<Longrightarrow> extractProfileBatch_loop ev i idxs acc ! k = acc ! k"
proof (induction idxs arbitrary: i acc)
  case Nil
  then show ?case by simp
next
  case (Cons a idxs)
  show ?case unfolding loop_step using Cons.prems by (simp add: Cons.IH nth_append)
qed

lemma loop_nth_new:
  "k < length idxs \<Longrightarrow>
   extractProfileBatch_loop ev i idxs acc ! (length acc + k) = entry_for (ev (i + k) (idxs ! k)) (idxs ! k)"
proof (induction idxs arbitrary: i acc k)
  case Nil
  then show ?case by simp
next
  case (Cons a idxs)
  show ?case
  proof (cases k)
    case 0
    then show ?thesis unfolding loop_step by (simp add: loop_nth_old)
  next
    case (Suc j)
    with Cons.prems have j: "j < length idxs" by simp
    from Cons.IH [OF j, of "Suc i" "acc @ [entry_for (ev i a) a]"] Suc
    show ?thesis unfolding loop_step by simp
  qed
qed

lemma js_simps: "js [] = []" "js (c # cs) = of_nat (of_char c) # js cs"
  by (simp_all add: js_def)

lemma many_distinct: "distinct (many i j)"
proof -
  have "inj_on (\<lambda>n. replicate n (0x61 :: 16 word)) A" for A
    by (rule inj_onI) (auto dest: arg_cong [where f = length])
  then show ?thesis by (simp add: many_def distinct_map)
qed

lemma filter_dropWhile_neg: "filter (\<lambda>c. \<not> P c) (dropWhile P xs) = filter (\<lambda>c. \<not> P c) xs"
  by (induction xs) simp_all

lemma remove_whitespace_trim: "remove_whitespace (trim s) = remove_whitespace s"
proof -
  have "filter (\<lambda>c. \<not> is_space c) (rev (dropWhile is_space (rev (dropWhile is_space s))))
        = rev (filter (\<lambda>c. \<not> is_space c) (dropWhile is_space (rev (dropWhile is_space s))))"
    by (simp only: rev_filter)
  also have "\<dots> = rev (filter (\<lambda>c. \<not> is_space c) (rev (dropWhile is_space s)))"
    by (simp only: filter_dropWhile_neg)
  also have "\<dots> = filter (\<lambda>c. \<not> is_space c) (dropWhile is_space s)"
    by (simp add: rev_filter)
  also have "\<dots> = filter (\<lambda>c. \<not> is_space c) s"
    by (simp only: filter_dropWhile_neg)
  finally show ?thesis by (simp add: remove_whitespace_def trim_def)
qed

lemma remove_whitespace_append: "remove_whitespace (xs @ ys) = remove_whitespace xs @ remove_whitespace ys"
  by (simp add: remove_whitespace_def)

lemma remove_whitespace_bar: "remove_whitespace (js ''|'') = js ''|''"
  by (simp add: remove_whitespace_def js_simps is_space_def)

lemma remove_whitespace_text: "remove_whitespace (text_or_empty f) = remove_whitespace (segment f)"
  by (cases f) (simp_all add: remove_whitespace_trim)

lemma href_segment: "href_or_empty f = segment f"
  by (cases f) simp_all

lemma uniqueId_segments:
  "uniqueId el = remove_whitespace (segment (nameEl el)) @ js ''|''
      @ remove_whitespace (segment (occupationEl el)) @ js ''|''
      @ remove_whitespace (segment (linkedInEl el))"
  by (simp add: uniqueId_def remove_whitespace_append remove_whitespace_bar remove_whitespace_text
        href_segment)

lemma remove_whitespace_subst:
  "\<not> is_space c \<Longrightarrow> \<not> is_space d \<Longrightarrow> c \<noteq> d \<Longrightarrow>
   remove_whitespace (xs @ c # ys) \<noteq> remove_whitespace (xs @ d # ys)"
  by (simp add: remove_whitespace_def)

lemma remove_whitespace_insert:
  "\<not> is_space c \<Longrightarrow> remove_whitespace (xs @ c # ys) \<noteq> remove_whitespace (xs @ ys)"
  by (simp add: remove_whitespace_def)



lemma split_first:
  "c \<notin> set xs \<Longrightarrow> c \<notin> set xs' \<Longrightarrow> (xs @ c # ys = xs' @ c # ys') = (xs = xs' \<and> ys = ys')"
proof (induction xs arbitrary: xs')
  case Nil
  then show ?case by (cases xs') auto
next
  case (Cons x xs)
  then show ?case by (cases xs') auto
qed

lemma join_injective:
  "c \<notin> set n \<Longrightarrow> c \<notin> set n' \<Longrightarrow> c \<notin> set oc \<Longrightarrow> c \<notin> set oc' \<Longrightarrow>
   (n @ c # oc @ c # l = n' @ c # oc' @ c # l') = (n = n' \<and> oc = oc' \<and> l = l')"
  by (auto simp: split_first)

lemma bar_remove_whitespace: "c \<notin> set s \<Longrightarrow> c \<notin> set (remove_whitespace s)"
  by (simp add: remove_whitespace_def)

lemma js_bar: "js ''|'' = [0x7C]"
  by (simp add: js_simps)

lemma uniqueId_separator_free:
  "0x7C \<notin> set (segment (nameEl a)) \<and> 0x7C \<notin> set (segment (occupationEl a))
    \<and> 0x7C \<notin> set (segment (nameEl b)) \<and> 0x7C \<notin> set (segment (occupationEl b)) \<longrightarrow>
      (uniqueId a = uniqueId b) =
        (remove_whitespace (segment (nameEl a)) = remove_whitespace (segment (nameEl b))
         \<and> remove_whitespace (segment (occupationEl a)) = remove_whitespace (segment (occupationEl b))
         \<and> remove_whitespace (segment (linkedInEl a)) = remove_whitespace (segment (linkedInEl b)))"
  by (simp add: uniqueId_segments js_bar join_injective bar_remove_whitespace)

subsection \<open>The batch and the selection\<close>

lemma enumerate_nth: "enumerate 0 xs = map (\<lambda>i. (i, xs ! i)) [0..<length xs]"
  by (rule nth_equalityI) (simp_all add: nth_enumerate_eq)

lemma currentProfilesWithIds_nth:
  "currentProfilesWithIds elements = map (\<lambda>i. (i, uniqueId (elements ! i))) [0..<length elements]"
  by (simp add: currentProfilesWithIds_def enumerate_nth)

lemma newProfiles_and:
  "newProfiles li ids elements =
     map (\<lambda>i. (i, uniqueId (elements ! i)))
       (filter (\<lambda>i. int i > li \<and> uniqueId (elements ! i) \<notin> set ids) [0..<length elements])"
  by (simp add: newProfiles_def currentProfilesWithIds_nth filter_map comp_def Set_has_def)

lemma extractProfileBatch_length: "length (extractProfileBatch idxs ev) = length idxs"
  by (simp add: extractProfileBatch_def loop_length)

lemma extractProfileBatch_nth:
  "i < length idxs \<Longrightarrow> extractProfileBatch idxs ev ! i = entry_for (ev i (idxs ! i)) (idxs ! i)"
  using loop_nth_new [of i idxs ev 0 "[]"] by (simp add: extractProfileBatch_def)

lemma loop_body_returns:
  "probed pg = Resolves els \<Longrightarrow> scrolled pg = Resolves h \<Longrightarrow> \<exists>st'. loop_body fn st pg = Inr st'"
  by (cases h) (simp add: loop_body_def Let_def)


subsection \<open>The stall counter\<close>

lemma scrollScrapeAndSave_iterations:
  "scrollScrapeAndSave fn li ids rows file pages = while_loop fn (initial li ids rows file) pages"
  by (simp add: scrollScrapeAndSave_def)

lemma commit_noChangeCount: "noChangeCount (commit fn st pg new) = noChangeCount st"
  by (simp add: commit_def Let_def)

lemma loop_body_count:
  "loop_body fn st pg = Inr st' \<Longrightarrow>
   noChangeCount st' = (if stalled (st, pg) then noChangeCount st + 1 else 0)"
  by (auto simp: loop_body_def Let_def next_noChangeCount_def commit_noChangeCount
      split: evaluated.splits prod.splits)

lemma count_after_snoc:
  "count_after n (tr @ [x]) = (if stalled x then count_after n tr + 1 else 0)"
  by (simp add: count_after_def)

lemma stall_run_snoc: "stall_run (tr @ [x]) = (if stalled x then stall_run tr + 1 else 0)"
  by (simp add: stall_run_def)

lemma count_after_0: "count_after 0 tr = stall_run tr"
  by (induction tr rule: rev_induct) (simp_all add: count_after_snoc stall_run_snoc, simp add: count_after_def stall_run_def)

lemma while_loop_count:
  "noChangeCount (state_of (while_loop fn st pages)) = count_after (noChangeCount st) (executed fn st pages)
    \<or> (\<exists>st'. while_loop fn st pages = Thrown st')"
proof (induction pages arbitrary: st)
  case Nil
  then show ?case by (simp add: count_after_def)
next
  case (Cons pg pages)
  show ?case
  proof (cases "noChangeCount st < maxNoChangeCount")
    case False
    then show ?thesis by (simp add: count_after_def)
  next
    case True
    show ?thesis
    proof (cases "loop_body fn st pg")
      case (Inl s)
      with True show ?thesis by simp
    next
      case (Inr s)
      from loop_body_count [OF Inr] Cons.IH [of s] True Inr show ?thesis
        by (auto simp: count_after_def)
    qed
  qed
qed

lemma while_loop_Done_ge: "while_loop fn st pages = Done st' \<Longrightarrow> noChangeCount st' \<ge> maxNoChangeCount"
  by (induction pages arbitrary: st) (auto split: if_splits sum.splits)

lemma while_loop_Running_lt: "while_loop fn st pages = Running st' \<Longrightarrow> noChangeCount st' < maxNoChangeCount"
  by (induction pages arbitrary: st) (auto split: if_splits sum.splits)

lemma while_loop_Done_le:
  "while_loop fn st pages = Done st' \<Longrightarrow> noChangeCount st \<le> maxNoChangeCount \<Longrightarrow> noChangeCount st' \<le> maxNoChangeCount"
proof (induction pages arbitrary: st)
  case Nil
  then show ?case by (auto split: if_splits)
next
  case (Cons pg pages)
  show ?case
  proof (cases "noChangeCount st < maxNoChangeCount")
    case False
    with Cons.prems show ?thesis by auto
  next
    case True
    show ?thesis
    proof (cases "loop_body fn st pg")
      case (Inl s)
      with True Cons.prems show ?thesis by simp
    next
      case (Inr s)
      from loop_body_count [OF Inr] True have "noChangeCount s \<le> maxNoChangeCount" by (auto split: if_splits)
      with Cons.IH [of s] Cons.prems True Inr show ?thesis by simp
    qed
  qed
qed

lemma stall_run_explicit:
  "stall_run tr = k \<Longrightarrow>
     k \<le> length tr \<and> (\<forall>x \<in> set (drop (length tr - k) tr). stalled x)
     \<and> (k < length tr \<longrightarrow> \<not> stalled (tr ! (length tr - Suc k)))"
proof -
  assume k: "stall_run tr = k"
  let ?r = "rev tr"
  have le: "k \<le> length tr" using k length_takeWhile_le [of stalled ?r] by (simp add: stall_run_def)
  have tk: "takeWhile stalled ?r = take k ?r"
    using k takeWhile_eq_take [of stalled ?r] by (simp add: stall_run_def)
  have "\<forall>x \<in> set (take k ?r). stalled x"
    using set_takeWhileD [of _ stalled ?r] tk by auto
  moreover have "take k ?r = rev (drop (length tr - k) tr)" by (simp add: take_rev)
  ultimately have all: "\<forall>x \<in> set (drop (length tr - k) tr). stalled x" by simp
  have nxt: "\<not> stalled (tr ! (length tr - Suc k))" if "k < length tr"
  proof -
    from that k have "\<not> stalled (?r ! k)"
      using nth_length_takeWhile [of stalled ?r] by (simp add: stall_run_def)
    with that show ?thesis by (simp add: rev_nth)
  qed
  from le all nxt show ?thesis by blast
qed

subsection \<open>One iteration and a whole run\<close>

lemma foldl_max_ge: "(a::int) \<le> foldl max a xs"
proof (induction xs arbitrary: a)
  case Nil
  then show ?case by simp
next
  case (Cons x xs)
  have "a \<le> max a x" by simp
  also have "\<dots> \<le> foldl max (max a x) xs" by (rule Cons.IH)
  finally show ?case by simp
qed

lemma foldl_max_Max: "foldl max (a::int) xs = Max (insert a (set xs))"
proof (induction xs arbitrary: a)
  case Nil
  then show ?case by simp
next
  case (Cons x xs)
  have "foldl max a (x # xs) = Max (insert (max a x) (set xs))" by (simp add: Cons.IH)
  also have "\<dots> = Max (insert a (insert x (set xs)))"
    by (cases "set xs = {}") (simp_all add: max.assoc)
  finally show ?case by simp
qed

lemma batch_to_commit_Nil: "batch_to_commit st pg [] = []"
  by (simp add: batch_to_commit_def tag_batch_def extractProfileBatch_def uniqueBatchData_def
      )










lemma commit_lastProfileIndex:
  "lastProfileIndex (commit fn st pg new) =
     (if batch_to_commit st pg new = [] then lastProfileIndex st
      else foldl max (lastProfileIndex st) (map (\<lambda>p. int (fst p)) new))"
  by (cases new) (simp_all add: commit_def Let_def batch_to_commit_Nil)

lemma commit_processedProfileIds:
  "processedProfileIds (commit fn st pg new) =
     foldl Set_add (processedProfileIds st) (map snd (batch_to_commit st pg new))"
  by (cases new) (simp_all add: commit_def Let_def batch_to_commit_Nil)


lemma commit_checkpointFile:
  "checkpointFile (commit fn st pg new) =
     (if batch_to_commit st pg new = [] then checkpointFile st
      else updateCheckpoint (lastProfileIndex (commit fn st pg new)) (Some fn)
             (Array_from (processedProfileIds (commit fn st pg new))) (write_ok pg) (checkpointFile st))"
  by (cases new) (simp_all add: commit_def Let_def batch_to_commit_Nil)

lemma commit_Nil: "commit fn st pg [] = st"
  by (simp add: commit_def)

lemma loop_body_fields:
  "lastProfileIndex (outcome_state (loop_body fn st pg)) = lastProfileIndex (commit fn st pg (delta (st, pg)))
   \<and> processedProfileIds (outcome_state (loop_body fn st pg)) = processedProfileIds (commit fn st pg (delta (st, pg)))
   \<and> csvRows (outcome_state (loop_body fn st pg)) = csvRows (commit fn st pg (delta (st, pg)))
   \<and> checkpointFile (outcome_state (loop_body fn st pg)) = checkpointFile (commit fn st pg (delta (st, pg)))"
  by (simp add: loop_body_def Let_def commit_Nil split: evaluated.splits prod.splits)

lemma loop_body_lastProfileIndex:
  "lastProfileIndex (outcome_state (loop_body fn st pg)) = lastProfileIndex (commit fn st pg (delta (st, pg)))"
  using loop_body_fields [of fn st pg] by simp

lemma loop_body_processedProfileIds:
  "processedProfileIds (outcome_state (loop_body fn st pg)) = processedProfileIds (commit fn st pg (delta (st, pg)))"
  using loop_body_fields [of fn st pg] by simp


lemma grown_refl: "grown st st"
  by (simp add: grown_def)

lemma grown_trans: "grown a b \<Longrightarrow> grown b c \<Longrightarrow> grown a c"
  by (auto simp: grown_def)

lemma loop_body_grown: "grown st (outcome_state (loop_body fn st pg))"
  unfolding grown_def loop_body_lastProfileIndex loop_body_processedProfileIds
    commit_lastProfileIndex commit_processedProfileIds
  using foldl_max_ge foldl_Set_add_extends by simp

lemma while_loop_grown: "grown st (state_of (while_loop fn st pages))"
proof (induction pages arbitrary: st)
  case Nil
  then show ?case by (simp add: grown_refl)
next
  case (Cons pg pages)
  show ?case
  proof (cases "noChangeCount st < maxNoChangeCount")
    case False
    then show ?thesis by (simp add: grown_refl)
  next
    case True
    show ?thesis
    proof (cases "loop_body fn st pg")
      case (Inl s)
      with True loop_body_grown [of st fn pg] show ?thesis by simp
    next
      case (Inr s)
      with loop_body_grown [of st fn pg] have "grown st s" by simp
      with Cons.IH [of s] True Inr show ?thesis by (auto intro: grown_trans)
    qed
  qed
qed

lemma executed_grown: "(s, p) \<in> set (executed fn st pages) \<Longrightarrow> grown st s"
proof (induction pages arbitrary: st)
  case Nil
  then show ?case by simp
next
  case (Cons pg pages)
  show ?case
  proof (cases "noChangeCount st < maxNoChangeCount")
    case False
    with Cons.prems show ?thesis by simp
  next
    case True
    show ?thesis
    proof (cases "loop_body fn st pg")
      case (Inl s')
      with True Cons.prems show ?thesis by (simp add: grown_refl)
    next
      case (Inr s')
      with loop_body_grown [of st fn pg] have g: "grown st s'" by simp
      from Cons.prems True Inr have "(s, p) = (st, pg) \<or> (s, p) \<in> set (executed fn s' pages)" by simp
      then show ?thesis
      proof
        assume "(s, p) = (st, pg)"
        then show ?thesis by (simp add: grown_refl)
      next
        assume "(s, p) \<in> set (executed fn s' pages)"
        from Cons.IH [OF this] g show ?thesis by (rule grown_trans [rotated])
      qed
    qed
  qed
qed


subsection \<open>Unfolding the model on concrete pages\<close>

lemmas eval_defs = initial_def maxNoChangeCount_def loop_body_def seen_def
  newProfiles_def currentProfilesWithIds_def enumerate_eq_zip commit_def batch_to_commit_def
  tag_batch_def extractProfileBatch_def uniqueBatchData_def Set_has_def Set_add_def
  appendToCsv_def Parser_parse_def empty_row_def updateCheckpoint_def slice_last_def Array_from_def js_simps trim_def
  remove_whitespace_def is_space_def uniqueId_def card_def ann_def bob_def row_def
  page_driver_def extract_in_page_def getTextContent_def getHref_def uni_name_of_def
  next_noChangeCount_def Let_def error_profile_def decimal.simps


section \<open>The claims\<close>

subsection \<open>C1: commit atomicity\<close>

text \<open>
  C1 asks that a batch whose append to the sink fails leaves no fingerprint of its own in
  the processed set nor in the checkpoint saved next. \<^verbatim>\<open>appendToCsv\<close> catches the
  failure and returns nothing, and the loop goes on to mark the batch: on a fresh run
  whose first page shows Ann, with the append failing, the CSV file gets no row, yet
  Ann's fingerprint is in the set and in the checkpoint written in that iteration.
\<close>

theorem append_failure_marks_processed:
  "scrollScrapeAndSave (js ''r.csv'') (- 1) [] [] None [(seen [ann] 100 200) \<lparr> append_ok := False \<rparr>]
     = Running \<lparr> lastProfileIndex = 0, processedProfileIds = [js ''Ann|CEO|''],
         noChangeCount = 0, scrollCount = 1, csvRows = [],
         checkpointFile = Some \<lparr> cp_lastProfileIndex = 0, cp_csvFilename = Some (js ''r.csv''),
           cp_processedProfileIds = [js ''Ann|CEO|''] \<rparr> \<rparr>"
  by (simp add: scrollScrapeAndSave_def eval_defs)

subsection \<open>C2: the delta set\<close>

text \<open>
  C2 as stated: the delta set holds exactly the visible items whose index is above
  \<open>lastIndex\<close> or whose fingerprint is absent from the processed set. It fails where a
  card beyond the last index carries a fingerprint already processed: the specified
  selection takes it, the source leaves it out.
\<close>

theorem selection_differs_from_specified:
  "delta (initial (- 1) [js ''Ann|CEO|''] [] None, seen [ann] 100 100)
     \<noteq> delta_as_specified (- 1) [js ''Ann|CEO|''] [ann]"
  by (simp add: delta_as_specified_def eval_defs)

text \<open>
  C2 as amended: in every iteration the delta set consists of exactly the visible items,
  in page order, whose index is greater than \<open>lastProfileIndex\<close> and whose fingerprint is
  not in the processed set.
\<close>

theorem selection_requires_both:
  "newProfiles li ids elements =
     map (\<lambda>i. (i, uniqueId (elements ! i)))
       (filter (\<lambda>i. int i > li \<and> uniqueId (elements ! i) \<notin> set ids) [0..<length elements])
   \<and> (probed pg = Resolves elements \<longrightarrow>
        delta (st, pg) = newProfiles (lastProfileIndex st) (processedProfileIds st) elements)"
  by (simp add: newProfiles_and)

theorem selection_requires_both_witness:
  "newProfiles 0 [js ''Ann|CEO|''] [ann, ann, bob] = [(2, js ''BobRoe|CFO|'')]
   \<and> delta (initial 0 [js ''Ann|CEO|''] [] None, seen [ann, ann, bob] 100 100)
       = [(2, js ''BobRoe|CFO|'')]"
proof -
  have p: "probed (seen [ann, ann, bob] 100 100) = Resolves [ann, ann, bob]"
    by (simp add: seen_def)
  have n: "newProfiles 0 [js ''Ann|CEO|''] [ann, ann, bob] = [(2, js ''BobRoe|CFO|'')]"
    by (simp add: eval_defs)
  from selection_requires_both [of 0 "[js ''Ann|CEO|'']" "[ann, ann, bob]"
      "seen [ann, ann, bob] 100 100" "initial 0 [js ''Ann|CEO|''] [] None"] p
  have "delta (initial 0 [js ''Ann|CEO|''] [] None, seen [ann, ann, bob] 100 100)
          = newProfiles (lastProfileIndex (initial 0 [js ''Ann|CEO|''] [] None))
              (processedProfileIds (initial 0 [js ''Ann|CEO|''] [] None)) [ann, ann, bob]"
    by blast
  with n show ?thesis by (simp add: initial_def)
qed

subsection \<open>C3: resume correctness\<close>




subsection \<open>C4: convergence\<close>

text \<open>
  C4: the loop leaves through its condition only when the stall counter is 5, which is
  when the last five iterations executed were stalls (unchanged height and no new
  profile) and the one before them, if any, was not; while it runs, the counter is the
  number of stalls at the end of the iterations so far, below 5. An iteration that is
  not a stall sets the counter to 0, a stall adds 1, and a run whose last iteration is
  not a stall has not ended: four stalls followed by a new profile leave the loop running
  with the counter at 0.
\<close>

theorem done_after_five_stalls:
  "(scrollScrapeAndSave fn li ids rows file pages = Done st' \<longrightarrow>
       noChangeCount st' = 5
     \<and> stall_run (iterations fn li ids rows file pages) = 5
     \<and> 5 \<le> length (iterations fn li ids rows file pages)
     \<and> (\<forall>x \<in> set (drop (length (iterations fn li ids rows file pages) - 5)
                      (iterations fn li ids rows file pages)). stalled x)
     \<and> (5 < length (iterations fn li ids rows file pages) \<longrightarrow>
          \<not> stalled (iterations fn li ids rows file pages
                       ! (length (iterations fn li ids rows file pages) - 6))))
   \<and> (scrollScrapeAndSave fn li ids rows file pages = Running st' \<longrightarrow>
         noChangeCount st' = stall_run (iterations fn li ids rows file pages)
       \<and> stall_run (iterations fn li ids rows file pages) < 5)
   \<and> (loop_body fn st pg = Inr st'' \<longrightarrow>
         noChangeCount st'' = (if stalled (st, pg) then noChangeCount st + 1 else 0))
   \<and> (iterations fn li ids rows file pages \<noteq> []
        \<and> \<not> stalled (last (iterations fn li ids rows file pages)) \<longrightarrow>
        scrollScrapeAndSave fn li ids rows file pages \<noteq> Done st')"
proof -
  let ?tr = "iterations fn li ids rows file pages"
  let ?run = "scrollScrapeAndSave fn li ids rows file pages"
  have start: "noChangeCount (initial li ids rows file) = 0" by (simp add: initial_def)
  have count: "noChangeCount (state_of ?run) = stall_run ?tr \<or> (\<exists>s. ?run = Thrown s)"
    using while_loop_count [of fn "initial li ids rows file" pages] start
    by (simp add: scrollScrapeAndSave_def iterations_def count_after_0)
  have fin: "noChangeCount st' = 5 \<and> stall_run ?tr = 5" if d: "?run = Done st'"
  proof -
    from d have "5 \<le> noChangeCount st'"
      using while_loop_Done_ge [of fn "initial li ids rows file" pages st']
      by (simp add: scrollScrapeAndSave_def maxNoChangeCount_def)
    moreover from d have "noChangeCount st' \<le> 5"
      using while_loop_Done_le [of fn "initial li ids rows file" pages st'] start
      by (simp add: scrollScrapeAndSave_def maxNoChangeCount_def)
    ultimately have "noChangeCount st' = 5" by simp
    with count d show ?thesis by simp
  qed
  have expl: "5 \<le> length ?tr \<and> (\<forall>x \<in> set (drop (length ?tr - 5) ?tr). stalled x)
      \<and> (5 < length ?tr \<longrightarrow> \<not> stalled (?tr ! (length ?tr - 6)))" if d: "?run = Done st'"
    using stall_run_explicit [of ?tr 5] fin [OF d] by simp
  have running: "noChangeCount st' = stall_run ?tr \<and> stall_run ?tr < 5" if r: "?run = Running st'"
  proof -
    from r have "noChangeCount st' < 5"
      using while_loop_Running_lt [of fn "initial li ids rows file" pages st']
      by (simp add: scrollScrapeAndSave_def maxNoChangeCount_def)
    with count r show ?thesis by simp
  qed
  have step: "loop_body fn st pg = Inr st'' \<longrightarrow>
         noChangeCount st'' = (if stalled (st, pg) then noChangeCount st + 1 else 0)"
    using loop_body_count [of fn st pg st''] by blast
  have reset: "?run \<noteq> Done st'" if ne: "?tr \<noteq> []" and ns: "\<not> stalled (last ?tr)"
  proof
    assume d: "?run = Done st'"
    from ne have "?tr = butlast ?tr @ [last ?tr]" by simp
    then have "stall_run ?tr = stall_run (butlast ?tr @ [last ?tr])" by simp
    also have "\<dots> = 0" using ns by (simp only: stall_run_snoc if_False)
    finally show False using fin [OF d] by simp
  qed
  from fin expl running step reset show ?thesis by blast
qed

theorem done_after_five_stalls_witness:
  "scrollScrapeAndSave (js ''r.csv'') (- 1) [] [] None
     [seen [] 100 100, seen [] 100 100, seen [] 100 100, seen [] 100 100, seen [] 100 100]
     = Done \<lparr> lastProfileIndex = - 1, processedProfileIds = [], noChangeCount = 5, scrollCount = 5,
         csvRows = [], checkpointFile = None \<rparr>
   \<and> stall_run (iterations (js ''r.csv'') (- 1) [] [] None
       [seen [] 100 100, seen [] 100 100, seen [] 100 100, seen [] 100 100, seen [] 100 100]) = 5
   \<and> scrollScrapeAndSave (js ''r.csv'') (- 1) [] [] None
     [seen [] 100 100, seen [] 100 100, seen [] 100 100, seen [] 100 100, seen [ann] 100 100]
     = Running \<lparr> lastProfileIndex = 0, processedProfileIds = [js ''Ann|CEO|''],
         noChangeCount = 0, scrollCount = 5, csvRows = [row ''Ann'' ''CEO''],
         checkpointFile = Some \<lparr> cp_lastProfileIndex = 0, cp_csvFilename = Some (js ''r.csv''),
           cp_processedProfileIds = [js ''Ann|CEO|''] \<rparr> \<rparr>
   \<and> stall_run (iterations (js ''r.csv'') (- 1) [] [] None
       [seen [] 100 100, seen [] 100 100, seen [] 100 100, seen [] 100 100, seen [ann] 100 100]) = 0"
proof -
  let ?five = "[seen [] 100 100, seen [] 100 100, seen [] 100 100, seen [] 100 100, seen [] 100 100]"
  let ?four = "[seen [] 100 100, seen [] 100 100, seen [] 100 100, seen [] 100 100, seen [ann] 100 100]"
  let ?d = "\<lparr> lastProfileIndex = - 1, processedProfileIds = [], noChangeCount = 5, scrollCount = 5,
         csvRows = [], checkpointFile = None \<rparr>"
  let ?r = "\<lparr> lastProfileIndex = 0, processedProfileIds = [js ''Ann|CEO|''],
         noChangeCount = 0, scrollCount = 5, csvRows = [row ''Ann'' ''CEO''],
         checkpointFile = Some \<lparr> cp_lastProfileIndex = 0, cp_csvFilename = Some (js ''r.csv''),
           cp_processedProfileIds = [js ''Ann|CEO|''] \<rparr> \<rparr>"
  have a: "scrollScrapeAndSave (js ''r.csv'') (- 1) [] [] None ?five = Done ?d"
    by (simp add: scrollScrapeAndSave_def eval_defs)
  have b: "scrollScrapeAndSave (js ''r.csv'') (- 1) [] [] None ?four = Running ?r"
    by (simp add: scrollScrapeAndSave_def eval_defs)
  from a done_after_five_stalls [of "js ''r.csv''" "- 1" "[]" "[]" None ?five ?d]
  have c: "stall_run (iterations (js ''r.csv'') (- 1) [] [] None ?five) = 5" by blast
  from b done_after_five_stalls [of "js ''r.csv''" "- 1" "[]" "[]" None ?four ?r]
  have "noChangeCount ?r = stall_run (iterations (js ''r.csv'') (- 1) [] [] None ?four)" by blast
  then have d: "stall_run (iterations (js ''r.csv'') (- 1) [] [] None ?four) = 0" by simp
  from a b c d show ?thesis by blast
qed

subsection \<open>C5: the eviction bound\<close>

text \<open>
  C5: a checkpoint save that succeeds writes the last 1000 of the fingerprints it is
  given, all of them when there are fewer, so at most 1000; a save that fails leaves the
  file as it was. After 1200 distinct fingerprints inserted in order into an empty set,
  the saved list is the last 1000 of them and shares nothing with the first 200.
\<close>

theorem checkpoint_keeps_last_1000:
  "updateCheckpoint li fn ids True file =
     Some \<lparr> cp_lastProfileIndex = li, cp_csvFilename = fn,
            cp_processedProfileIds = drop (length ids - 1000) ids \<rparr>
   \<and> length (drop (length ids - 1000) ids) \<le> 1000
   \<and> updateCheckpoint li fn ids False file = file
   \<and> (distinct fps \<and> length fps = 1200 \<longrightarrow>
        updateCheckpoint li fn (Array_from (foldl Set_add (Set_new []) fps)) True file =
          Some \<lparr> cp_lastProfileIndex = li, cp_csvFilename = fn,
                 cp_processedProfileIds = drop 200 fps \<rparr>
        \<and> length (drop 200 fps) = 1000
        \<and> set (take 200 fps) \<inter> set (drop 200 fps) = {})"
proof -
  have a: "updateCheckpoint li fn ids True file =
     Some \<lparr> cp_lastProfileIndex = li, cp_csvFilename = fn,
            cp_processedProfileIds = drop (length ids - 1000) ids \<rparr>" for ids
    by (simp add: updateCheckpoint_def slice_last_def)
  have b: "length (drop (length ids - 1000) ids) \<le> 1000" by simp
  have c: "foldl Set_add (Set_new []) fps = fps" if "distinct fps"
    using that foldl_Set_add_distinct [of "[]" fps] by (simp add: Set_new_def)
  have d: "set (take 200 fps) \<inter> set (drop 200 fps) = {}" if "distinct fps"
    using that set_take_disj_set_drop_if_distinct [of fps 200 200] by simp
  have e: "updateCheckpoint li fn ids False file = file"
    by (simp add: updateCheckpoint_def)
  show ?thesis using a [of ids] a [of fps] b c d e by (auto simp: Array_from_def)
qed

theorem checkpoint_keeps_last_1000_witness:
  "updateCheckpoint 1199 (Some (js ''r.csv''))
      (Array_from (foldl Set_add (Set_new []) (many 0 1200))) True None =
     Some \<lparr> cp_lastProfileIndex = 1199, cp_csvFilename = Some (js ''r.csv''),
            cp_processedProfileIds = many 200 1200 \<rparr>
   \<and> length (many 200 1200) = 1000
   \<and> set (many 0 200) \<inter> set (many 200 1200) = {}"
proof -
  have len: "length (many 0 1200) = 1200"
    by (simp add: many_def del: upt_rec_numeral)
  have dr: "drop 200 (many 0 1200) = many 200 1200"
    by (simp add: many_def drop_map del: upt_rec_numeral)
  have tk: "take 200 (many 0 1200) = many 0 200"
    by (simp add: many_def take_map del: upt_rec_numeral)
  from checkpoint_keeps_last_1000 [of 1199 "Some (js ''r.csv'')" "[]" None "many 0 1200"]
    many_distinct [of 0 1200] len
  show ?thesis unfolding dr tk by blast
qed

subsection \<open>C6: the extraction batch\<close>

text \<open>
  C6: \<^verbatim>\<open>extractProfileBatch\<close> returns one record per requested index, in order: the
  extracted data, or, when the driver throws or the in-page function finds no element
  at that index, the record named \<^verbatim>\<open>Error_Profile_<index>\<close> with every other field
  null. The batch has no failing outcome, and an iteration whose probe and height
  queries resolve returns normally whatever the extraction calls do.
\<close>

theorem batch_one_entry_per_index:
  "length (extractProfileBatch idxs ev) = length idxs
   \<and> (\<forall>i < length idxs.
        extractProfileBatch idxs ev ! i =
          (case ev i (idxs ! i) of
             Resolves (Some data) \<Rightarrow> data
           | Resolves None \<Rightarrow> error_profile (idxs ! i)
           | Rejects \<Rightarrow> error_profile (idxs ! i)))
   \<and> (\<forall>i < length idxs. throws i \<or> length elements \<le> idxs ! i \<longrightarrow>
        extractProfileBatch idxs (page_driver elements throws) ! i = error_profile (idxs ! i))
   \<and> error_profile k =
        \<lparr> name = Some (js ''Error_Profile_'' @ decimal k), linkedIn_url = None,
          website_url = None, occupation = None, location = None, uni_name = None \<rparr>
   \<and> (probed pg = Resolves els \<and> scrolled pg = Resolves h \<longrightarrow>
        (\<exists>st'. loop_body fn st (pg \<lparr> extracted := ev \<rparr>) = Inr st'))"
proof -
  have a: "\<forall>i < length idxs.
        extractProfileBatch idxs ev ! i =
          (case ev i (idxs ! i) of
             Resolves (Some data) \<Rightarrow> data
           | Resolves None \<Rightarrow> error_profile (idxs ! i)
           | Rejects \<Rightarrow> error_profile (idxs ! i))"
    by (simp add: extractProfileBatch_nth entry_for_def)
  have b: "\<forall>i < length idxs. throws i \<or> length elements \<le> idxs ! i \<longrightarrow>
        extractProfileBatch idxs (page_driver elements throws) ! i = error_profile (idxs ! i)"
    by (auto simp: extractProfileBatch_nth entry_for_def page_driver_def extract_in_page_def)
  have c: "probed pg = Resolves els \<and> scrolled pg = Resolves h \<longrightarrow>
        (\<exists>st'. loop_body fn st (pg \<lparr> extracted := ev \<rparr>) = Inr st')"
    using loop_body_returns [of "pg \<lparr> extracted := ev \<rparr>" els h fn st] by simp
  show ?thesis using a b c by (simp add: extractProfileBatch_length error_profile_def)
qed

theorem batch_one_entry_per_index_witness:
  "length (extractProfileBatch [0, 1, 2, 3, 4, 5, 6, 7, 8, 9]
             (page_driver [ann, bob, ann, bob, ann, bob, ann, bob, ann] (\<lambda>i. i = 5))) = 10
   \<and> extractProfileBatch [0, 1, 2, 3, 4, 5, 6, 7, 8, 9]
        (page_driver [ann, bob, ann, bob, ann, bob, ann, bob, ann] (\<lambda>i. i = 5)) ! 5
      = \<lparr> name = Some (js ''Error_Profile_5''), linkedIn_url = None,
          website_url = None, occupation = None, location = None, uni_name = None \<rparr>
   \<and> extractProfileBatch [0, 1, 2, 3, 4, 5, 6, 7, 8, 9]
        (page_driver [ann, bob, ann, bob, ann, bob, ann, bob, ann] (\<lambda>i. i = 5)) ! 9
      = \<lparr> name = Some (js ''Error_Profile_9''), linkedIn_url = None,
          website_url = None, occupation = None, location = None, uni_name = None \<rparr>
   \<and> extractProfileBatch [0, 1, 2, 3, 4, 5, 6, 7, 8, 9]
        (page_driver [ann, bob, ann, bob, ann, bob, ann, bob, ann] (\<lambda>i. i = 5)) ! 1
      = row ''Bob Roe'' ''CFO''
   \<and> (\<exists>st'. loop_body (js ''r.csv'') (initial (- 1) [] [] None)
               ((seen [ann] 100 200) \<lparr> extracted := \<lambda>i idx. Rejects \<rparr>) = Inr st')"
proof -
  let ?idxs = "[0, 1, 2, 3, 4, 5, 6, 7, 8, 9] :: nat list"
  let ?els = "[ann, bob, ann, bob, ann, bob, ann, bob, ann]"
  let ?ev = "page_driver ?els (\<lambda>i. i = 5)"
  note t = batch_one_entry_per_index [of ?idxs ?ev "\<lambda>i. i = 5" ?els _ "seen [ann] 100 200" "[ann]" "(100, 200)"
      "js ''r.csv''" "initial (- 1) [] [] None"]
  have e5: "error_profile 5 = \<lparr> name = Some (js ''Error_Profile_5''), linkedIn_url = None,
          website_url = None, occupation = None, location = None, uni_name = None \<rparr>"
    by (simp add: error_profile_def decimal.simps js_simps)
  have e9: "error_profile 9 = \<lparr> name = Some (js ''Error_Profile_9''), linkedIn_url = None,
          website_url = None, occupation = None, location = None, uni_name = None \<rparr>"
    by (simp add: error_profile_def decimal.simps js_simps)
  have l: "length (extractProfileBatch ?idxs ?ev) = 10" using t by simp
  have n5: "extractProfileBatch ?idxs ?ev ! 5 = error_profile 5"
  proof -
    from t have "\<forall>i < length ?idxs. (i = 5) \<or> length ?els \<le> ?idxs ! i \<longrightarrow>
        extractProfileBatch ?idxs ?ev ! i = error_profile (?idxs ! i)" by blast
    then have "(5::nat) < length ?idxs \<longrightarrow> extractProfileBatch ?idxs ?ev ! 5 = error_profile (?idxs ! 5)"
      by blast
    then show ?thesis by simp
  qed
  have n9: "extractProfileBatch ?idxs ?ev ! 9 = error_profile 9"
  proof -
    from t have "\<forall>i < length ?idxs. (i = 5) \<or> length ?els \<le> ?idxs ! i \<longrightarrow>
        extractProfileBatch ?idxs ?ev ! i = error_profile (?idxs ! i)" by blast
    then have "(9::nat) < length ?idxs \<longrightarrow> (9::nat) = 5 \<or> length ?els \<le> ?idxs ! 9 \<longrightarrow>
       extractProfileBatch ?idxs ?ev ! 9 = error_profile (?idxs ! 9)"
      by blast
    then show ?thesis by simp
  qed
  have n1: "extractProfileBatch ?idxs ?ev ! 1 = row ''Bob Roe'' ''CFO''"
    by (simp add: eval_defs)
  have r: "\<exists>st'. loop_body (js ''r.csv'') (initial (- 1) [] [] None)
               ((seen [ann] 100 200) \<lparr> extracted := \<lambda>i idx. Rejects \<rparr>) = Inr st'"
    using batch_one_entry_per_index [of "[]" "\<lambda>i idx. Rejects" "\<lambda>i. False" "[]" 0 "seen [ann] 100 200" "[ann]" "(100, 200)"
      "js ''r.csv''" "initial (- 1) [] [] None"]
    by (simp add: seen_def)
  from l n5 n9 n1 r show ?thesis unfolding e5 e9 by blast
qed

subsection \<open>C7: the fingerprint\<close>

text \<open>
  C7 as stated: the fingerprint is a function of name, occupation and LinkedIn URL, a
  missing field gives an empty segment, and since whitespace removal is the only
  normalization, inputs differing in case or punctuation have different fingerprints.
  The last part fails for the separator: the fields are joined with \<^verbatim>\<open>|\<close> unescaped,
  so two cards that differ only in where a \<^verbatim>\<open>|\<close> stands have the same fingerprint.
\<close>

theorem separator_collision:
  "card ''a|'' ''b'' \<noteq> card ''a'' ''|b''
   \<and> uniqueId (card ''a|'' ''b'') = uniqueId (card ''a'' ''|b'')"
  by (simp add: card_def uniqueId_def js_simps trim_def remove_whitespace_def is_space_def)

text \<open>
  C7 as amended: the fingerprint is the three fields, each with its whitespace removed
  and empty when missing, joined by \<^verbatim>\<open>|\<close>; it depends on nothing else of the card.
  Two cards whose name and occupation contain no \<^verbatim>\<open>|\<close> have equal fingerprints
  exactly when their three fields are equal up to whitespace. In any field, replacing a
  non-whitespace character by a different one (a letter by its other case, one
  punctuation mark by another) or inserting one changes the fingerprint, and inserting
  a whitespace character does not.
\<close>

theorem fingerprint_whitespace_only:
  "uniqueId el = remove_whitespace (segment (nameEl el)) @ js ''|''
      @ remove_whitespace (segment (occupationEl el)) @ js ''|''
      @ remove_whitespace (segment (linkedInEl el))
   \<and> (nameEl a = nameEl b \<and> occupationEl a = occupationEl b \<and> linkedInEl a = linkedInEl b
        \<longrightarrow> uniqueId a = uniqueId b)
   \<and> (0x7C \<notin> set (segment (nameEl a)) \<and> 0x7C \<notin> set (segment (occupationEl a))
        \<and> 0x7C \<notin> set (segment (nameEl b)) \<and> 0x7C \<notin> set (segment (occupationEl b)) \<longrightarrow>
        (uniqueId a = uniqueId b) =
          (remove_whitespace (segment (nameEl a)) = remove_whitespace (segment (nameEl b))
           \<and> remove_whitespace (segment (occupationEl a)) = remove_whitespace (segment (occupationEl b))
           \<and> remove_whitespace (segment (linkedInEl a)) = remove_whitespace (segment (linkedInEl b))))
   \<and> (\<not> is_space c \<and> \<not> is_space d \<and> c \<noteq> d \<longrightarrow>
        uniqueId (el \<lparr> nameEl := Some (xs @ c # ys) \<rparr>) \<noteq> uniqueId (el \<lparr> nameEl := Some (xs @ d # ys) \<rparr>)
      \<and> uniqueId (el \<lparr> occupationEl := Some (xs @ c # ys) \<rparr>)
           \<noteq> uniqueId (el \<lparr> occupationEl := Some (xs @ d # ys) \<rparr>)
      \<and> uniqueId (el \<lparr> linkedInEl := Some (xs @ c # ys) \<rparr>)
           \<noteq> uniqueId (el \<lparr> linkedInEl := Some (xs @ d # ys) \<rparr>))
   \<and> (\<not> is_space c \<longrightarrow>
        uniqueId (el \<lparr> nameEl := Some (xs @ c # ys) \<rparr>) \<noteq> uniqueId (el \<lparr> nameEl := Some (xs @ ys) \<rparr>)
      \<and> uniqueId (el \<lparr> occupationEl := Some (xs @ c # ys) \<rparr>)
           \<noteq> uniqueId (el \<lparr> occupationEl := Some (xs @ ys) \<rparr>)
      \<and> uniqueId (el \<lparr> linkedInEl := Some (xs @ c # ys) \<rparr>)
           \<noteq> uniqueId (el \<lparr> linkedInEl := Some (xs @ ys) \<rparr>))
   \<and> (is_space c \<longrightarrow>
        uniqueId (el \<lparr> nameEl := Some (xs @ c # ys) \<rparr>) = uniqueId (el \<lparr> nameEl := Some (xs @ ys) \<rparr>)
      \<and> uniqueId (el \<lparr> occupationEl := Some (xs @ c # ys) \<rparr>)
           = uniqueId (el \<lparr> occupationEl := Some (xs @ ys) \<rparr>)
      \<and> uniqueId (el \<lparr> linkedInEl := Some (xs @ c # ys) \<rparr>)
           = uniqueId (el \<lparr> linkedInEl := Some (xs @ ys) \<rparr>))"
proof -
  have same: "nameEl a = nameEl b \<and> occupationEl a = occupationEl b \<and> linkedInEl a = linkedInEl b
        \<longrightarrow> uniqueId a = uniqueId b"
    by (simp add: uniqueId_def)
  have subst: "\<not> is_space c \<and> \<not> is_space d \<and> c \<noteq> d \<longrightarrow>
        uniqueId (el \<lparr> nameEl := Some (xs @ c # ys) \<rparr>) \<noteq> uniqueId (el \<lparr> nameEl := Some (xs @ d # ys) \<rparr>)
      \<and> uniqueId (el \<lparr> occupationEl := Some (xs @ c # ys) \<rparr>)
           \<noteq> uniqueId (el \<lparr> occupationEl := Some (xs @ d # ys) \<rparr>)
      \<and> uniqueId (el \<lparr> linkedInEl := Some (xs @ c # ys) \<rparr>)
           \<noteq> uniqueId (el \<lparr> linkedInEl := Some (xs @ d # ys) \<rparr>)"
    using remove_whitespace_subst [of c d xs ys] by (simp add: uniqueId_segments)
  have ins: "\<not> is_space c \<longrightarrow>
        uniqueId (el \<lparr> nameEl := Some (xs @ c # ys) \<rparr>) \<noteq> uniqueId (el \<lparr> nameEl := Some (xs @ ys) \<rparr>)
      \<and> uniqueId (el \<lparr> occupationEl := Some (xs @ c # ys) \<rparr>)
           \<noteq> uniqueId (el \<lparr> occupationEl := Some (xs @ ys) \<rparr>)
      \<and> uniqueId (el \<lparr> linkedInEl := Some (xs @ c # ys) \<rparr>)
           \<noteq> uniqueId (el \<lparr> linkedInEl := Some (xs @ ys) \<rparr>)"
    using remove_whitespace_insert [of c xs ys] by (simp add: uniqueId_segments)
  have ws: "is_space c \<longrightarrow>
        uniqueId (el \<lparr> nameEl := Some (xs @ c # ys) \<rparr>) = uniqueId (el \<lparr> nameEl := Some (xs @ ys) \<rparr>)
      \<and> uniqueId (el \<lparr> occupationEl := Some (xs @ c # ys) \<rparr>)
           = uniqueId (el \<lparr> occupationEl := Some (xs @ ys) \<rparr>)
      \<and> uniqueId (el \<lparr> linkedInEl := Some (xs @ c # ys) \<rparr>)
           = uniqueId (el \<lparr> linkedInEl := Some (xs @ ys) \<rparr>)"
    by (simp add: uniqueId_segments remove_whitespace_def)
  show ?thesis using uniqueId_segments [of el] same uniqueId_separator_free [of a b] subst ins ws by blast
qed

theorem fingerprint_whitespace_only_witness:
  "uniqueId (ann \<lparr> nameEl := Some (js ''Ann'') \<rparr>) \<noteq> uniqueId (ann \<lparr> nameEl := Some (js ''ann'') \<rparr>)
   \<and> uniqueId (ann \<lparr> occupationEl := Some (js ''C.E.O'') \<rparr>) \<noteq> uniqueId (ann \<lparr> occupationEl := Some (js ''C.EO'') \<rparr>)
   \<and> uniqueId (ann \<lparr> nameEl := Some (js ''A nn'') \<rparr>) = uniqueId (ann \<lparr> nameEl := Some (js ''Ann'') \<rparr>)
   \<and> uniqueId (ann \<lparr> nameEl := None, occupationEl := None \<rparr>) = js ''||''
   \<and> uniqueId ann = js ''Ann|CEO|''"
proof -
  have sp: "\<not> is_space 0x41" "\<not> is_space 0x61" "(0x41 :: 16 word) \<noteq> 0x61" "\<not> is_space 0x2E" "is_space 0x20"
    by (simp_all add: is_space_def)
  have w: "js ''Ann'' = [] @ 0x41 # js ''nn''" "js ''ann'' = [] @ 0x61 # js ''nn''"
    "js ''C.E.O'' = js ''C.E'' @ 0x2E # js ''O''" "js ''C.EO'' = js ''C.E'' @ js ''O''"
    "js ''A nn'' = js ''A'' @ 0x20 # js ''nn''" "js ''Ann'' = js ''A'' @ js ''nn''"
    by (simp_all add: js_simps)
  have 1: "uniqueId (ann \<lparr> nameEl := Some (js ''Ann'') \<rparr>) \<noteq> uniqueId (ann \<lparr> nameEl := Some (js ''ann'') \<rparr>)"
    unfolding w(1,2) using fingerprint_whitespace_only [where el = ann and c = "0x41" and d = "0x61" and xs = "[]" and ys = "js ''nn''"] sp by blast
  have 2: "uniqueId (ann \<lparr> occupationEl := Some (js ''C.E.O'') \<rparr>) \<noteq> uniqueId (ann \<lparr> occupationEl := Some (js ''C.EO'') \<rparr>)"
    unfolding w(3,4) using fingerprint_whitespace_only [where el = ann and c = "0x2E" and xs = "js ''C.E''" and ys = "js ''O''"] sp by blast
  have 3: "uniqueId (ann \<lparr> nameEl := Some (js ''A nn'') \<rparr>) = uniqueId (ann \<lparr> nameEl := Some (js ''Ann'') \<rparr>)"
    unfolding w(5,6) using fingerprint_whitespace_only [where el = ann and c = "0x20" and xs = "js ''A''" and ys = "js ''nn''"] sp by blast
  have 4: "uniqueId (ann \<lparr> nameEl := None, occupationEl := None \<rparr>) = js ''||''"
    using fingerprint_whitespace_only [where el = "ann \<lparr> nameEl := None, occupationEl := None \<rparr>"]
    by (simp add: ann_def card_def remove_whitespace_def js_simps)
  have 5: "uniqueId ann = js ''Ann|CEO|''"
    by (simp add: eval_defs)
  from 1 2 3 4 5 show ?thesis by blast
qed

subsection \<open>C8: the interrupt handler\<close>

text \<open>
  C8 asks that the handler saves the index, the file name and the processed set as they
  are when the signal arrives. The handler is registered once and guarded by
  \<^verbatim>\<open>shuttingDown\<close>, but it closes over the arguments of its registration: on a fresh
  run it is registered with index -1 and no file name; one iteration later the run is at
  index 0 and writes to \<^verbatim>\<open>r.csv\<close>, and a signal then saves index -1 and a null file
  name next to the current set.
\<close>

theorem interrupt_saves_registration_values:
  "scrapeSearchFunder_start None = (- 1, None, [], setupGracefulShutdown (- 1) None)
   \<and> scrollScrapeAndSave (js ''r.csv'') (- 1) [] [] None [seen [ann] 100 200]
       = Running \<lparr> lastProfileIndex = 0, processedProfileIds = [js ''Ann|CEO|''],
           noChangeCount = 0, scrollCount = 1, csvRows = [row ''Ann'' ''CEO''],
           checkpointFile = Some \<lparr> cp_lastProfileIndex = 0, cp_csvFilename = Some (js ''r.csv''),
             cp_processedProfileIds = [js ''Ann|CEO|''] \<rparr> \<rparr>
   \<and> on_SIGINT (setupGracefulShutdown (- 1) None) [js ''Ann|CEO|''] True
         (Some \<lparr> cp_lastProfileIndex = 0, cp_csvFilename = Some (js ''r.csv''),
             cp_processedProfileIds = [js ''Ann|CEO|''] \<rparr>)
       = (\<lparr> h_lastProfileIndex = - 1, h_csvFilename = None, shuttingDown = True \<rparr>,
          Some \<lparr> cp_lastProfileIndex = - 1, cp_csvFilename = None,
             cp_processedProfileIds = [js ''Ann|CEO|''] \<rparr>,
          True)
   \<and> on_SIGINT \<lparr> h_lastProfileIndex = - 1, h_csvFilename = None, shuttingDown = True \<rparr>
         [js ''Ann|CEO|''] True None
       = (\<lparr> h_lastProfileIndex = - 1, h_csvFilename = None, shuttingDown = True \<rparr>, None, False)"
  by (simp add: scrollScrapeAndSave_def eval_defs scrapeSearchFunder_start_def loadCheckpoint_def
       default_checkpoint_def resume_lastProfileIndex_def resume_csvFilename_def
       resume_processedProfileIds_def Set_new_def setupGracefulShutdown_def on_SIGINT_def)

subsection \<open>C9: the last index\<close>

text \<open>
  C9: an iteration never lowers \<open>lastProfileIndex\<close>: it leaves it alone when nothing is
  handed to the sink and otherwise sets it to the maximum of its value and the indices of
  the delta batch. So the index at the end of any run of the loop, and at the start of
  every iteration executed on the way, is at least the index the run started from.
\<close>

theorem lastProfileIndex_never_decreases:
  "lastProfileIndex st \<le> lastProfileIndex (outcome_state (loop_body fn st pg))
   \<and> lastProfileIndex (outcome_state (loop_body fn st pg)) =
        (if handed_to_sink (st, pg) = [] then lastProfileIndex st
         else Max (insert (lastProfileIndex st) ((\<lambda>p. int (fst p)) ` set (delta (st, pg)))))
   \<and> lastProfileIndex st \<le> lastProfileIndex (state_of (while_loop fn st pages))
   \<and> (\<forall>x \<in> set (executed fn st pages). lastProfileIndex st \<le> lastProfileIndex (fst x))
   \<and> li \<le> lastProfileIndex (state_of (scrollScrapeAndSave fn li ids rows file pages))"
proof -
  have a: "lastProfileIndex st \<le> lastProfileIndex (outcome_state (loop_body fn st pg))"
    using loop_body_grown [of st fn pg] by (simp add: grown_def)
  have b: "lastProfileIndex (outcome_state (loop_body fn st pg)) =
        (if handed_to_sink (st, pg) = [] then lastProfileIndex st
         else Max (insert (lastProfileIndex st) ((\<lambda>p. int (fst p)) ` set (delta (st, pg)))))"
    by (simp add: loop_body_lastProfileIndex commit_lastProfileIndex foldl_max_Max)
  have c: "lastProfileIndex s \<le> lastProfileIndex (state_of (while_loop fn s pages))" for s
    using while_loop_grown [of s fn pages] by (simp add: grown_def)
  have d: "\<forall>x \<in> set (executed fn st pages). lastProfileIndex st \<le> lastProfileIndex (fst x)"
    using executed_grown [of _ _ fn st pages] by (auto simp: grown_def)
  have e: "li \<le> lastProfileIndex (state_of (scrollScrapeAndSave fn li ids rows file pages))"
    using c [of "initial li ids rows file"] by (simp add: scrollScrapeAndSave_def initial_def)
  from a b c [of st] d e show ?thesis by blast
qed

theorem lastProfileIndex_never_decreases_witness:
  "lastProfileIndex (state_of (scrollScrapeAndSave (js ''r.csv'') (- 1) [] [] None
       [seen [ann] 100 200, seen [ann, bob] 200 200, seen [ann] 200 200])) = 1
   \<and> (- 1 :: int) \<le> lastProfileIndex (state_of (scrollScrapeAndSave (js ''r.csv'') (- 1) [] [] None
       [seen [ann] 100 200, seen [ann, bob] 200 200, seen [ann] 200 200]))"
proof -
  let ?pages = "[seen [ann] 100 200, seen [ann, bob] 200 200, seen [ann] 200 200]"
  have a: "lastProfileIndex (state_of (scrollScrapeAndSave (js ''r.csv'') (- 1) [] [] None ?pages)) = 1"
    by (simp add: scrollScrapeAndSave_def eval_defs)
  from lastProfileIndex_never_decreases [of _ "js ''r.csv''" _ ?pages "- 1" "[]" "[]" None]
  have b: "(- 1 :: int) \<le> lastProfileIndex (state_of (scrollScrapeAndSave (js ''r.csv'') (- 1) [] [] None ?pages))"
    by blast
  from a b show ?thesis by blast
qed

subsection \<open>C10: the processed set in memory\<close>

text \<open>
  C10: the processed set of a run only grows: at the end of any run of the loop it is the
  set the run started from followed by the fingerprints added, and an iteration adds the
  fingerprints it hands to the sink and removes none, whatever the size of the set. The
  cut to 1000 entries is made on the list written to the checkpoint file only. The
  selection of every iteration excludes every fingerprint of the set in memory, so also
  those a saved checkpoint no longer lists.
\<close>

theorem processed_set_only_grows:
  "(\<exists>ys. processedProfileIds (state_of (while_loop fn st pages)) = processedProfileIds st @ ys)
   \<and> (\<forall>x \<in> set (executed fn st pages).
        set (processedProfileIds st) \<subseteq> set (processedProfileIds (fst x))
        \<and> (\<forall>r \<in> set (delta x). snd r \<notin> set (processedProfileIds (fst x))))
   \<and> processedProfileIds (outcome_state (loop_body fn st pg))
        = foldl Set_add (processedProfileIds st) (map snd (handed_to_sink (st, pg)))
   \<and> length (processedProfileIds st) \<le> length (processedProfileIds (outcome_state (loop_body fn st pg)))
   \<and> (handed_to_sink (st, pg) \<noteq> [] \<and> write_ok pg \<longrightarrow>
        map_option cp_processedProfileIds (checkpointFile (outcome_state (loop_body fn st pg)))
          = Some (slice_last 1000 (processedProfileIds (outcome_state (loop_body fn st pg)))))"
proof -
  have a: "\<exists>ys. processedProfileIds (state_of (while_loop fn st pages)) = processedProfileIds st @ ys"
    using while_loop_grown [of st fn pages] by (simp add: grown_def)
  have b1: "set (processedProfileIds st) \<subseteq> set (processedProfileIds (fst x))"
    if "x \<in> set (executed fn st pages)" for x
    using that executed_grown [of "fst x" "snd x" fn st pages] by (auto simp: grown_def)
  have b2: "snd r \<notin> set (processedProfileIds (fst x))" if "r \<in> set (delta x)" for x r
    using that by (cases x) (auto simp: newProfiles_def Set_has_def split: evaluated.splits)
  have c: "processedProfileIds (outcome_state (loop_body fn st pg))
        = foldl Set_add (processedProfileIds st) (map snd (handed_to_sink (st, pg)))"
    by (simp add: loop_body_processedProfileIds commit_processedProfileIds)
  have d: "length (processedProfileIds st) \<le> length (processedProfileIds (outcome_state (loop_body fn st pg)))"
    using loop_body_grown [of st fn pg] by (auto simp: grown_def)
  have e: "map_option cp_processedProfileIds (checkpointFile (outcome_state (loop_body fn st pg)))
          = Some (slice_last 1000 (processedProfileIds (outcome_state (loop_body fn st pg))))"
    if "handed_to_sink (st, pg) \<noteq> []" "write_ok pg"
    using that loop_body_fields [of fn st pg]
    by (simp add: commit_checkpointFile updateCheckpoint_def Array_from_def slice_last_def)
  from a b1 b2 c d e show ?thesis by blast
qed

theorem processed_set_only_grows_witness:
  "length (processedProfileIds long_run) = 1200
   \<and> js ''Ann|CEO|'' \<notin> set (slice_last 1000 (processedProfileIds long_run))
   \<and> js ''Ann|CEO|'' \<notin> snd ` set (delta (long_run, seen [ann] 100 200))
   \<and> delta (long_run, seen [ann] 100 200) = []"
proof -
  let ?pg = "seen [ann] 100 200"
  have len: "length (processedProfileIds long_run) = 1200"
    by (simp add: long_run_def many_def del: upt_rec_numeral)
  have sl: "slice_last 1000 (processedProfileIds long_run) = many 200 1200"
    by (simp add: long_run_def many_def slice_last_def drop_map drop_Cons' del: upt_rec_numeral)
  have no: "js ''Ann|CEO|'' \<notin> set (many 200 1200)"
    by (auto simp: many_def js_simps Cons_replicate_eq simp del: upt_rec_numeral)
  have member: "js ''Ann|CEO|'' \<in> set (processedProfileIds long_run)"
    by (simp add: long_run_def)
  have ex: "(long_run, ?pg) \<in> set (executed (js ''r.csv'') long_run [?pg])"
    by (simp add: long_run_def maxNoChangeCount_def)
  from processed_set_only_grows [of "js ''r.csv''" long_run "[?pg]"] ex
  have "\<forall>r \<in> set (delta (long_run, ?pg)). snd r \<notin> set (processedProfileIds (fst (long_run, ?pg)))"
    by blast
  then have fresh: "\<forall>r \<in> set (delta (long_run, ?pg)). snd r \<notin> set (processedProfileIds long_run)"
    by simp
  with member have a: "js ''Ann|CEO|'' \<notin> snd ` set (delta (long_run, ?pg))"
    by (auto simp del: delta.simps)
  have d: "delta (long_run, ?pg) = []"
    by (simp add: seen_def long_run_def newProfiles_def currentProfilesWithIds_def enumerate_eq_zip
        Set_has_def uniqueId_def remove_whitespace_def trim_def is_space_def js_simps ann_def card_def)
  from len sl no a d show ?thesis by simp
qed

end
